theory Spec2Isabelle
  imports Main
begin

section \<open>Expression handles of the tree module\<close>

text \<open>
  The module \<^verbatim>\<open>src/tree.ts\<close> defines the interface \<^verbatim>\<open>U\<close> of expression handles and
  its one composite implementation, the class \<^verbatim>\<open>Cons\<close>; the atoms are supplied by
  the callers. The only atom class of the repository is the \<^verbatim>\<open>Atom\<close> of its test
  suite (a string value; \<^verbatim>\<open>isCons()\<close> and \<^verbatim>\<open>isNil()\<close> both false), and it is the
  atom modelled here.

  The file holds two revisions of the module. The definitions below follow the current
  one, in which a pair node is empty when its head slot is unset and every node takes an
  optional source range. The earlier revision knew no empty node but the object
  \<^verbatim>\<open>nil\<close> and tested \<^verbatim>\<open>this !== nil\<close>; its suite has no test of another empty node,
  which the later suites have.

  JavaScript objects have an identity, which \<^verbatim>\<open>===\<close> compares. Every object of the
  model therefore carries the reference it was allocated at, and \<^verbatim>\<open>a === b\<close> is
  the equality \<open>a = b\<close> of handles, reference included: two pair nodes built by
  two \<^verbatim>\<open>new Cons(...)\<close> from the same arguments differ in their reference. The
  private slots \<^verbatim>\<open>#car\<close> and \<^verbatim>\<open>#cdr\<close> are assigned by the constructor only, so
  an object is a finite tree of slots: \<open>None\<close> is \<^verbatim>\<open>undefined\<close>, and the truthiness
  test \<^verbatim>\<open>if (this.#car)\<close> asks whether the slot is \<open>Some\<close> object.
\<close>

type_synonym ref = nat

datatype U =
    Atom ref string
  | ConsU ref "U option" "U option" "int option" "int option"

text \<open>
  Every failure of the module is a \<^verbatim>\<open>throw new Error(message)\<close>; the message is all
  that tells one from another. The accessor \<^verbatim>\<open>cdr\<close> and the function \<^verbatim>\<open>cons\<close>
  throw with no message, \<^verbatim>\<open>item\<close> and \<^verbatim>\<open>tail\<close> with the two messages below.
\<close>

datatype error = Error string

abbreviation ShapeError :: error where
  "ShapeError \<equiv> Error []"

abbreviation IndexError :: error where
  "IndexError \<equiv> Error ''index out of bounds.''"

abbreviation EmptyListError :: error where
  "EmptyListError \<equiv> Error ''tail property is not allowed for the empty list.''"

text \<open>
  The empty list \<^verbatim>\<open>nil = new Cons(void 0, void 0, void 0, void 0)\<close> is allocated once,
  when the module is loaded: it is the object of reference 0.
\<close>

definition nil :: U where
  "nil = ConsU 0 None None None None"

text \<open>\<^verbatim>\<open>x instanceof Cons\<close>.\<close>

fun instanceof_Cons :: "U \<Rightarrow> bool" where
  "instanceof_Cons (ConsU r a d p e) = True"
| "instanceof_Cons (Atom r v) = False"

text \<open>
  The interface methods \<^verbatim>\<open>isNil()\<close> and \<^verbatim>\<open>isCons()\<close>: the first equation is the
  method of \<^verbatim>\<open>Cons\<close>, the second the method of the atom.
\<close>

fun isCons :: "U \<Rightarrow> bool" where
  "isCons (ConsU r a d p e) = (case a of Some h \<Rightarrow> True | None \<Rightarrow> False)"
| "isCons (Atom r v) = False"

fun isNil :: "U \<Rightarrow> bool" where
  "isNil (ConsU r a d p e) = (case a of Some h \<Rightarrow> False | None \<Rightarrow> True)"
| "isNil (Atom r v) = False"

text \<open>
  The accessors \<^verbatim>\<open>car\<close> and \<^verbatim>\<open>cdr\<close> of the class \<^verbatim>\<open>Cons\<close>. They, and the other
  members of the class below, have a \<^verbatim>\<open>Cons\<close> for receiver: their equations are
  given for pair nodes, and say nothing of an atom. The accessor \<^verbatim>\<open>cdr\<close> throws
  when the slot holds an object that is not a \<^verbatim>\<open>Cons\<close>.
\<close>

fun Cons_car :: "U \<Rightarrow> U" where
  "Cons_car (ConsU r a d p e) = (case a of Some h \<Rightarrow> h | None \<Rightarrow> nil)"

fun Cons_cdr :: "U \<Rightarrow> error + U" where
  "Cons_cdr (ConsU r a d p e) =
     (case d of
        Some t \<Rightarrow> (if instanceof_Cons t then Inr t else Inl (Error []))
      | None \<Rightarrow> Inr nil)"

text \<open>
  The free predicates. \<^verbatim>\<open>is_cons\<close> asks first whether its argument is
  \<^verbatim>\<open>undefined\<close>, so its argument is an optional handle.
\<close>

definition is_nil :: "U \<Rightarrow> bool" where
  "is_nil expr = isNil expr"

fun is_cons :: "U option \<Rightarrow> bool" where
  "is_cons None = False"
| "is_cons (Some expr) = (if instanceof_Cons expr then \<not> isNil expr else False)"

definition is_atom :: "U \<Rightarrow> bool" where
  "is_atom expr = (if is_cons (Some expr) then False else if is_nil expr then False else True)"

subsection \<open>Structural equality\<close>

text \<open>
  \<^verbatim>\<open>Cons.equals\<close> and the loop of \<^verbatim>\<open>equal_cons_cons\<close> call each other, and both go
  through the accessors, which answer \<open>nil\<close> for an unset slot. The recursion is
  therefore not structural; it descends along the following weight, which counts the
  objects of a handle.
\<close>

fun weight :: "U \<Rightarrow> nat" where
  "weight (Atom r v) = 1"
| "weight (ConsU r a d p e) =
     1 + (case a of None \<Rightarrow> 0 | Some h \<Rightarrow> weight h) + (case d of None \<Rightarrow> 0 | Some t \<Rightarrow> weight t)"

lemma weight_pos: "0 < weight x"
  by (cases x) simp_all

lemma weight_Cons_car: "is_cons (Some p) \<Longrightarrow> weight (Cons_car p) < weight p"
  by (cases p) (auto split: option.splits)

lemma weight_Cons_cdr: "is_cons (Some p) \<Longrightarrow> Cons_cdr p = Inr q \<Longrightarrow> weight q < weight p"
  using weight_pos by (cases p) (auto simp: nil_def split: option.splits if_splits)

lemma equals_measure_car:
  "is_cons (Some p1) \<Longrightarrow> is_cons (Some p2) \<Longrightarrow>
   3 * (weight (Cons_car p1) + weight (Cons_car p2)) + 2 < 3 * (weight p1 + weight p2) + 1"
proof -
  assume a: "is_cons (Some p1)" and b: "is_cons (Some p2)"
  have "weight (Cons_car p1) < weight p1" by (rule weight_Cons_car [OF a])
  moreover have "weight (Cons_car p2) < weight p2" by (rule weight_Cons_car [OF b])
  ultimately show ?thesis by arith
qed

lemma equals_measure_cdr:
  "is_cons (Some p1) \<Longrightarrow> is_cons (Some p2) \<Longrightarrow> Cons_cdr p1 = Inr q1 \<Longrightarrow> Cons_cdr p2 = Inr q2 \<Longrightarrow>
   weight q1 + weight q2 < weight p1 + weight p2"
proof -
  assume a: "is_cons (Some p1)" and b: "is_cons (Some p2)"
    and c: "Cons_cdr p1 = Inr q1" and d: "Cons_cdr p2 = Inr q2"
  have "weight q1 < weight p1" by (rule weight_Cons_cdr [OF a c])
  moreover have "weight q2 < weight p2" by (rule weight_Cons_cdr [OF b d])
  ultimately show ?thesis by arith
qed

text \<open>
  \<^verbatim>\<open>equals\<close> dispatches on its receiver: the first equation is \<^verbatim>\<open>Atom.equals\<close> of
  the test suite, the second \<^verbatim>\<open>Cons.equals\<close>. \<^verbatim>\<open>equal_cons_cons p1 p2\<close> is the
  \<^verbatim>\<open>while (true)\<close> loop of the source at the state \<open>(p1, p2)\<close>; a throw of the
  accessor \<^verbatim>\<open>cdr\<close> leaves the loop and the comparison.
\<close>

function (sequential) equals :: "U \<Rightarrow> U \<Rightarrow> error + bool"
  and equal_cons_cons :: "U \<Rightarrow> U \<Rightarrow> error + bool" where
  "equals (Atom r v) other =
     (if other = Atom r v then Inr True
      else (case other of Atom r' v' \<Rightarrow> Inr (v = v') | ConsU _ _ _ _ _ \<Rightarrow> Inr False))"
| "equals (ConsU r a d p e) other =
     (if ConsU r a d p e = other then Inr True
      else if is_cons (Some other) then equal_cons_cons (ConsU r a d p e) other
      else if is_atom other then Inr False
      else if isNil other then Inr (isNil (ConsU r a d p e))
      else Inr False)"
| "equal_cons_cons p1 p2 =
     (if is_cons (Some p1) \<and> is_cons (Some p2) then
        (case equals (Cons_car p1) (Cons_car p2) of
           Inl err \<Rightarrow> Inl err
         | Inr True \<Rightarrow>
             (case Cons_cdr p1 of
                Inl err \<Rightarrow> Inl err
              | Inr p1' \<Rightarrow>
                  (case Cons_cdr p2 of
                     Inl err \<Rightarrow> Inl err
                   | Inr p2' \<Rightarrow> equal_cons_cons p1' p2'))
         | Inr False \<Rightarrow> Inr False)
      else if is_cons (Some p1) then Inr False
      else if is_cons (Some p2) then Inr False
      else equals p1 p2)"
  by pat_completeness auto
termination
proof (relation "measure (\<lambda>x. case x of
            Inl (a, b) \<Rightarrow> 3 * (weight a + weight b) + (if is_cons (Some b) then 2 else 0)
          | Inr (p1, p2) \<Rightarrow> 3 * (weight p1 + weight p2) + 1)", goal_cases)
  case 1
  show ?case by simp
next
  case (2 r a d p e other)
  then show ?case by simp
next
  case (3 p1 p2)
  then have "3 * (weight (Cons_car p1) + weight (Cons_car p2)) + 2 < 3 * (weight p1 + weight p2) + 1"
    by (simp only: equals_measure_car)
  then show ?case by simp
next
  case (4 p1 p2 x2 x2b x2c)
  then have "weight x2b + weight x2c < weight p1 + weight p2"
    using equals_measure_cdr by blast
  then show ?case by simp
next
  case (5 p1 p2)
  then show ?case by simp
qed

declare equal_cons_cons.simps [simp del]

subsection \<open>Containment\<close>

text \<open>
  \<^verbatim>\<open>contains\<close>, by receiver: the atom of the test suite defers to \<^verbatim>\<open>equals\<close>; a pair
  node answers true when it is the needle or equals it, and otherwise descends into its
  slots when both are set. \<^verbatim>\<open>||\<close> evaluates its right operand only when the left
  one is false.
\<close>

fun contains :: "U \<Rightarrow> U \<Rightarrow> error + bool" where
  "contains (Atom r v) needle = equals (Atom r v) needle"
| "contains (ConsU r a d p e) needle =
     (if ConsU r a d p e = needle then Inr True
      else (case equals (ConsU r a d p e) needle of
          Inl err \<Rightarrow> Inl err
        | Inr True \<Rightarrow> Inr True
        | Inr False \<Rightarrow>
            (case a of
               None \<Rightarrow> Inr False
             | Some h \<Rightarrow>
                 (case d of
                    None \<Rightarrow> Inr False
                  | Some t \<Rightarrow>
                      (case contains h needle of
                         Inl err \<Rightarrow> Inl err
                       | Inr True \<Rightarrow> Inr True
                       | Inr False \<Rightarrow> contains t needle)))))"

subsection \<open>Construction\<close>

text \<open>
  \<^verbatim>\<open>new Cons(car, cdr, pos, end)\<close> allocates: the state of the allocator is the next
  free reference, taken by the new object. The constructor checks nothing.
\<close>

definition new_Cons :: "U option \<Rightarrow> U option \<Rightarrow> int option \<Rightarrow> int option \<Rightarrow> ref \<Rightarrow> U \<times> ref" where
  "new_Cons car cdr pos endp h = (ConsU h car cdr pos endp, Suc h)"

definition cons :: "U \<Rightarrow> U \<Rightarrow> int option \<Rightarrow> int option \<Rightarrow> ref \<Rightarrow> error + U \<times> ref" where
  "cons car cdr pos endp h =
     (if instanceof_Cons cdr then Inr (new_Cons (Some car) (Some cdr) pos endp h)
      else Inl ShapeError)"

text \<open>
  The loop of \<^verbatim>\<open>pos_end_items_to_cons\<close>,
  \<^verbatim>\<open>for (let i = items.length - 1; i >= 0; i--) node = new Cons(items[i], node, pos, end)\<close>:
  \<open>items_loop pos endp items n node h\<close> is the loop when \<open>n\<close> items are left, that is
  at \<open>i = n - 1\<close>.
\<close>

fun items_loop :: "int option \<Rightarrow> int option \<Rightarrow> U list \<Rightarrow> nat \<Rightarrow> U \<Rightarrow> ref \<Rightarrow> U \<times> ref" where
  "items_loop pos endp items 0 node h = (node, h)"
| "items_loop pos endp items (Suc i) node h =
     (case new_Cons (Some (items ! i)) (Some node) pos endp h of
        (node', h') \<Rightarrow> items_loop pos endp items i node' h')"

definition pos_end_items_to_cons :: "int option \<Rightarrow> int option \<Rightarrow> U list \<Rightarrow> ref \<Rightarrow> U \<times> ref" where
  "pos_end_items_to_cons pos endp items h = items_loop pos endp items (length items) nil h"

definition items_to_cons :: "U list \<Rightarrow> ref \<Rightarrow> U \<times> ref" where
  "items_to_cons items h = pos_end_items_to_cons None None items h"

subsection \<open>Free accessors\<close>

definition car :: "U \<Rightarrow> U" where
  "car node = (if is_cons (Some node) then Cons_car node else nil)"

definition cdr :: "U \<Rightarrow> error + U" where
  "cdr node = (if is_cons (Some node) then Cons_cdr node else Inr nil)"

subsection \<open>Navigation\<close>

definition argList :: "U \<Rightarrow> error + U" where
  "argList this = Cons_cdr this"

definition head :: "U \<Rightarrow> U" where
  "head this = Cons_car this"

text \<open>
  \<^verbatim>\<open>base\<close> is \<^verbatim>\<open>this.argList.head\<close> and \<^verbatim>\<open>expo\<close> is \<^verbatim>\<open>this.cdr.cdr.car\<close>.
\<close>

definition base :: "U \<Rightarrow> error + U" where
  "base this = (case argList this of Inl err \<Rightarrow> Inl err | Inr al \<Rightarrow> Inr (head al))"

definition expo :: "U \<Rightarrow> error + U" where
  "expo this =
     (case Cons_cdr this of
        Inl err \<Rightarrow> Inl err
      | Inr d \<Rightarrow> (case Cons_cdr d of Inl err \<Rightarrow> Inl err | Inr dd \<Rightarrow> Inr (Cons_car dd)))"

text \<open>
  The iterator of a pair node, run to its end as the spread \<^verbatim>\<open>[...cdr]\<close> does:
  \<^verbatim>\<open>let u = this; while (is_cons(u)) { yield u.car; u = u.cdr; }\<close>. A throw of the
  accessor ends the spread with that error.
\<close>

function iterator :: "U \<Rightarrow> error + U list" where
  "iterator u =
     (if is_cons (Some u) then
        (case Cons_cdr u of
           Inl err \<Rightarrow> Inl err
         | Inr u' \<Rightarrow>
             (case iterator u' of
                Inl err \<Rightarrow> Inl err
              | Inr ys \<Rightarrow> Inr (Cons_car u # ys)))
      else Inr [])"
  by pat_completeness auto
termination
proof (relation "measure weight", goal_cases)
  case 1
  show ?case by simp
next
  case (2 u u')
  then have "weight u' < weight u" by (simp only: weight_Cons_cdr)
  then show ?case by simp
qed

declare iterator.simps [simp del]

text \<open>\<^verbatim>\<open>tail()\<close> reads the slot \<^verbatim>\<open>#cdr\<close> itself, not the accessor.\<close>

fun tail :: "U \<Rightarrow> error + U list" where
  "tail (ConsU r a d p e) =
     (if isNil (ConsU r a d p e) then Inl EmptyListError
      else (case d of
          None \<Rightarrow> Inr []
        | Some c \<Rightarrow> if is_cons (Some c) then iterator c else Inr []))"

text \<open>
  \<^verbatim>\<open>map(f)\<close>: the arguments of \<^verbatim>\<open>new Cons(f(a), is_cons(b) ? b.map(f) : b, ...)\<close> are
  evaluated before the object is allocated, so the nodes of the rest are allocated
  first. The mapping function is a pure function of the handle.
\<close>

function (sequential) Cons_map :: "(U \<Rightarrow> U) \<Rightarrow> U \<Rightarrow> ref \<Rightarrow> error + U \<times> ref" where
  "Cons_map f (ConsU r a d p e) h =
     (if isNil (ConsU r a d p e) then Inr (ConsU r a d p e, h)
      else (case Cons_cdr (ConsU r a d p e) of
          Inl err \<Rightarrow> Inl err
        | Inr b \<Rightarrow>
            (case (if is_cons (Some b) then Cons_map f b h else Inr (b, h)) of
               Inl err \<Rightarrow> Inl err
             | Inr (b', h') \<Rightarrow>
                 Inr (new_Cons (Some (f (Cons_car (ConsU r a d p e)))) (Some b') p e h'))))"
  by pat_completeness auto
termination
proof (relation "measure (\<lambda>(f, this, h). weight this)", goal_cases)
  case 1
  show ?case by simp
next
  case (2 f r a d p e h b)
  then have "is_cons (Some (ConsU r a d p e))" by simp
  with 2 have "weight b < weight (ConsU r a d p e)" by (simp only: weight_Cons_cdr)
  then show ?case by simp
qed

text \<open>The accessor \<^verbatim>\<open>length\<close>.\<close>

function (sequential) Cons_length :: "U \<Rightarrow> error + nat" where
  "Cons_length (ConsU r a d p e) =
     (if isNil (ConsU r a d p e) then Inr 0
      else (case argList (ConsU r a d p e) of
          Inl err \<Rightarrow> Inl err
        | Inr al \<Rightarrow>
            if is_cons (Some al) then
              (case Cons_length al of Inl err \<Rightarrow> Inl err | Inr n \<Rightarrow> Inr (n + 1))
            else Inr 1))"
  by pat_completeness auto
termination
proof (relation "measure weight", goal_cases)
  case 1
  show ?case by simp
next
  case (2 r a d p e al)
  then have "is_cons (Some (ConsU r a d p e))" by simp
  with 2 have "weight al < weight (ConsU r a d p e)" by (simp only: argList_def weight_Cons_cdr)
  then show ?case by simp
qed

text \<open>
  \<^verbatim>\<open>item(index)\<close>: the index is an integer here. Every path that does not return
  reaches the \<^verbatim>\<open>throw\<close> at the end of the method.
\<close>

function (sequential) item :: "U \<Rightarrow> int \<Rightarrow> error + U" where
  "item (ConsU r a d p e) index =
     (if index \<ge> 0 \<and> \<not> isNil (ConsU r a d p e) then
        (if index = 0 then Inr (Cons_car (ConsU r a d p e))
         else (case argList (ConsU r a d p e) of
             Inl err \<Rightarrow> Inl err
           | Inr al \<Rightarrow>
               if is_cons (Some al) then item al (index - 1)
               else Inl IndexError))
      else Inl IndexError)"
  by pat_completeness auto
termination
  by (relation "measure (\<lambda>(this, index). nat index)") auto

definition opr :: "U \<Rightarrow> error + U" where
  "opr this = item this 0"

definition arg :: "U \<Rightarrow> error + U" where
  "arg this = item this 1"

definition lhs :: "U \<Rightarrow> error + U" where
  "lhs this = item this 1"

definition rhs :: "U \<Rightarrow> error + U" where
  "rhs this = item this 2"

subsection \<open>Shape\<close>

text \<open>
  The handle in which the rest chain of a handle ends: the first one, following the
  accessor \<^verbatim>\<open>cdr\<close>, that is not a pair node with its head slot set.
\<close>

function chain_end :: "U \<Rightarrow> error + U" where
  "chain_end u =
     (if is_cons (Some u) then
        (case Cons_cdr u of Inl err \<Rightarrow> Inl err | Inr u' \<Rightarrow> chain_end u')
      else Inr u)"
  by pat_completeness auto
termination
proof (relation "measure weight", goal_cases)
  case 1
  show ?case by simp
next
  case (2 u u')
  then have "weight u' < weight u" by (simp only: weight_Cons_cdr)
  then show ?case by simp
qed

declare chain_end.simps [simp del]


text \<open>
  A handle is well shaped when every rest slot in it, at any depth, is unset or holds a
  \<^verbatim>\<open>Cons\<close>: this is what \<^verbatim>\<open>cons\<close> checks of its second argument and what the
  accessor \<^verbatim>\<open>cdr\<close> checks when it is read.
\<close>

fun well_shaped :: "U \<Rightarrow> bool" where
  "well_shaped (Atom r v) = True"
| "well_shaped (ConsU r a d p e) =
     ((case a of None \<Rightarrow> True | Some h \<Rightarrow> well_shaped h) \<and>
      (case d of None \<Rightarrow> True | Some t \<Rightarrow> instanceof_Cons t \<and> well_shaped t))"

text \<open>
  A handle is linked when every pair node in it that has a head has a \<^verbatim>\<open>Cons\<close> in its
  rest slot, in the heads and the rests alike: the pair nodes that \<^verbatim>\<open>items_to_cons\<close> and
  \<^verbatim>\<open>cons\<close> build are so. A handle \<open>x\<close> is held in \<open>p\<close> when it is \<open>p\<close> or sits, at any
  depth, in a slot of a pair node of \<open>p\<close> that has a head.
\<close>

fun linked :: "U \<Rightarrow> bool" where
  "linked (Atom r v) = True"
| "linked (ConsU r a d p e) =
     (case a of
        None \<Rightarrow> True
      | Some h \<Rightarrow> linked h \<and> (case d of None \<Rightarrow> False | Some t \<Rightarrow> instanceof_Cons t \<and> linked t))"

fun held :: "U \<Rightarrow> U \<Rightarrow> bool" where
  "held x (Atom r v) = (x = Atom r v)"
| "held x (ConsU r a d p e) =
     (x = ConsU r a d p e \<or>
      (case a of
         None \<Rightarrow> False
       | Some h \<Rightarrow> held x h \<or> (case d of None \<Rightarrow> False | Some t \<Rightarrow> held x t)))"

section \<open>Basic facts\<close>

lemma is_cons_ConsU [simp]: "is_cons (Some (ConsU r a d p e)) = (a \<noteq> None)"
  by (cases a) simp_all

lemma is_cons_Atom [simp]: "is_cons (Some (Atom r v)) = False"
  by simp

declare is_cons.simps(2) [simp del]

lemma is_cons_nil [simp]: "is_cons (Some nil) = False"
  by (simp add: nil_def)


section \<open>The empty list\<close>

lemma isNil_nil [simp]: "isNil nil = True"
  by (simp add: nil_def)

lemma is_atom_nil [simp]: "is_atom nil = False"
  by (simp add: is_atom_def is_nil_def)

lemma equals_nil: "equals x nil = Inr (isNil x)"
proof (cases x)
  case (Atom r v)
  then show ?thesis by (simp add: nil_def)
next
  case (ConsU r a d p e)
  then show ?thesis by (cases a) (auto simp: nil_def is_atom_def is_nil_def)
qed

lemma nil_equals_empty: "equals nil (ConsU r None d p e) = Inr True"
  by (simp add: nil_def is_atom_def is_nil_def)

text \<open>
  Claim C1. For every handle \<open>x\<close>, \<^verbatim>\<open>is_nil(x)\<close> is true exactly when
  \<^verbatim>\<open>x.equals(nil)\<close> returns true. In particular a pair node whose head slot is unset,
  whatever its reference, its rest slot and its source range, equals \<open>nil\<close> and is
  equalled by \<open>nil\<close>, although it is not the object \<open>nil\<close>.
\<close>

theorem is_nil_iff_equals_nil:
  "(is_nil x \<longleftrightarrow> equals x nil = Inr True) \<and>
   equals (ConsU r None d p e) nil = Inr True \<and>
   equals nil (ConsU r None d p e) = Inr True"
  by (simp add: equals_nil nil_equals_empty is_nil_def)

section \<open>Structural equality is an equivalence on well-built lists\<close>

lemma equals_refl: "equals x x = Inr True"
  by (cases x) simp_all

lemma Cons_cdr_error: "instanceof_Cons p \<Longrightarrow> Cons_cdr p = Inl err \<Longrightarrow> err = Error []"
  by (cases p) (auto split: option.splits if_splits)

lemma is_cons_instance: "is_cons (Some p) \<Longrightarrow> instanceof_Cons p"
  by (cases p) simp_all










lemma isNil_instance: "instanceof_Cons p \<Longrightarrow> isNil p = (\<not> is_cons (Some p))"
  by (cases p) (auto split: option.splits)


lemma instanceof_nil [simp]: "instanceof_Cons nil"
  by (simp add: nil_def)

lemma Cons_cdr_instance: "instanceof_Cons p \<Longrightarrow> Cons_cdr p = Inr q \<Longrightarrow> instanceof_Cons q"
  by (cases p) (auto split: option.splits if_splits)

subsection \<open>Lists built by \<open>items_to_cons\<close>\<close>

lemma items_loop_Cons:
  "items_loop pos endp (x # xs) (Suc n) node h =
     (case items_loop pos endp xs n node h of
        (t, h') \<Rightarrow> (ConsU h' (Some x) (Some t) pos endp, Suc h'))"
  by (induction n arbitrary: node h) (simp_all add: new_Cons_def)

lemma items_to_cons_Nil [simp]: "items_to_cons [] h = (nil, h)"
  by (simp add: items_to_cons_def pos_end_items_to_cons_def)

lemma items_to_cons_Cons:
  "items_to_cons (x # xs) h =
     (case items_to_cons xs h of (t, h') \<Rightarrow> (ConsU h' (Some x) (Some t) None None, Suc h'))"
  by (simp add: items_to_cons_def pos_end_items_to_cons_def items_loop_Cons del: items_loop.simps)

lemma snd_items_to_cons [simp]: "snd (items_to_cons xs h) = h + length xs"
  by (induction xs) (auto simp: items_to_cons_Cons split: prod.splits)

lemma fst_items_to_cons_Cons:
  "fst (items_to_cons (x # xs) h) =
     ConsU (h + length xs) (Some x) (Some (fst (items_to_cons xs h))) None None"
proof (cases "items_to_cons xs h")
  case (Pair t h')
  have "snd (items_to_cons xs h) = h + length xs" by (rule snd_items_to_cons)
  with Pair have "h' = h + length xs" by simp
  with Pair show ?thesis by (simp add: items_to_cons_Cons)
qed

lemma instanceof_items [simp]: "instanceof_Cons (fst (items_to_cons xs h))"
  by (cases xs) (simp_all add: fst_items_to_cons_Cons)

lemma is_cons_items [simp]: "is_cons (Some (fst (items_to_cons xs h))) = (xs \<noteq> [])"
  by (cases xs) (simp_all add: fst_items_to_cons_Cons)

lemma Cons_car_items [simp]: "Cons_car (fst (items_to_cons (x # xs) h)) = x"
  by (simp add: fst_items_to_cons_Cons)

lemma Cons_cdr_items [simp]:
  "Cons_cdr (fst (items_to_cons (x # xs) h)) = Inr (fst (items_to_cons xs h))"
  by (simp add: fst_items_to_cons_Cons)



subsection \<open>Length\<close>

lemma Cons_length_unfold:
  "instanceof_Cons p \<Longrightarrow> Cons_length p =
     (if isNil p then Inr 0
      else (case Cons_cdr p of
          Inl err \<Rightarrow> Inl err
        | Inr al \<Rightarrow>
            if is_cons (Some al) then
              (case Cons_length al of Inl err \<Rightarrow> Inl err | Inr n \<Rightarrow> Inr (n + 1))
            else Inr 1))"
  by (cases p) (simp_all add: argList_def)

declare Cons_length.simps [simp del]

lemma Cons_length_items: "Cons_length (fst (items_to_cons xs h)) = Inr (length xs)"
proof (induction xs)
  case Nil
  show ?case by (simp add: Cons_length_unfold [of nil])
next
  case (Cons x xs)
  then show ?case
    by (auto simp: Cons_length_unfold [of "fst (items_to_cons (x # xs) h)"] isNil_instance)
qed








section \<open>Walking the rest chain\<close>

lemma iterator_empty: "\<not> is_cons (Some u) \<Longrightarrow> iterator u = Inr []"
  by (simp add: iterator.simps [of u])

lemma iterator_step:
  "is_cons (Some u) \<Longrightarrow> Cons_cdr u = Inr u' \<Longrightarrow> iterator u' = Inr ys \<Longrightarrow>
   iterator u = Inr (Cons_car u # ys)"
  by (simp add: iterator.simps [of u])

lemma iterator_items: "iterator (fst (items_to_cons xs h)) = Inr xs"
proof (induction xs)
  case Nil
  show ?case by (simp add: iterator_empty)
next
  case (Cons x xs)
  have "iterator (fst (items_to_cons (x # xs) h)) =
      Inr (Cons_car (fst (items_to_cons (x # xs) h)) # xs)"
    by (rule iterator_step [OF _ _ Cons]) simp_all
  then show ?case by simp
qed

lemma chain_end_step:
  "is_cons (Some u) \<Longrightarrow> Cons_cdr u = Inr u' \<Longrightarrow> chain_end u = chain_end u'"
  by (simp add: chain_end.simps [of u])

lemma chain_end_empty: "\<not> is_cons (Some u) \<Longrightarrow> chain_end u = Inr u"
  by (simp add: chain_end.simps [of u])

lemma chain_end_items: "chain_end (fst (items_to_cons xs h)) = Inr nil"
proof (induction xs)
  case Nil
  show ?case by (simp add: chain_end_empty)
next
  case (Cons x xs)
  have "chain_end (fst (items_to_cons (x # xs) h)) = chain_end (fst (items_to_cons xs h))"
    by (rule chain_end_step) simp_all
  with Cons show ?case by simp
qed

lemma item_unfold:
  "instanceof_Cons p \<Longrightarrow> item p i =
     (if i \<ge> 0 \<and> \<not> isNil p then
        (if i = 0 then Inr (Cons_car p)
         else (case Cons_cdr p of
             Inl err \<Rightarrow> Inl err
           | Inr al \<Rightarrow> if is_cons (Some al) then item al (i - 1) else Inl IndexError))
      else Inl IndexError)"
  by (cases p) (simp_all add: argList_def)

declare item.simps [simp del]

text \<open>
  \<^verbatim>\<open>item\<close> reads the sequence that the iterator yields: inside its bounds it returns the
  element, outside it throws the index error.
\<close>

lemma item_iterator:
  "instanceof_Cons p \<Longrightarrow> iterator p = Inr xs \<Longrightarrow>
   item p i = (if 0 \<le> i \<and> i < int (length xs) then Inr (xs ! nat i) else Inl IndexError)"
proof (induction xs arbitrary: p i)
  case Nil
  have "\<not> is_cons (Some p)"
  proof
    assume "is_cons (Some p)"
    with Nil.prems(2) show False
      by (simp add: iterator.simps [of p] split: sum.splits)
  qed
  with Nil.prems(1) show ?case by (simp add: item_unfold isNil_instance)
next
  case (Cons x xs)
  have c: "is_cons (Some p)"
  proof (rule ccontr)
    assume "\<not> is_cons (Some p)"
    then have "iterator p = Inr []" by (rule iterator_empty)
    with Cons.prems(2) show False by simp
  qed
  with Cons.prems(2) obtain p' where p': "Cons_cdr p = Inr p'" and it: "iterator p' = Inr xs"
    and x: "Cons_car p = x"
    by (auto simp: iterator.simps [of p] split: sum.splits)
  have ip': "instanceof_Cons p'" using Cons.prems(1) p' by (rule Cons_cdr_instance)
  have ih: "item p' (i - 1) =
      (if 0 \<le> i - 1 \<and> i - 1 < int (length xs) then Inr (xs ! nat (i - 1)) else Inl IndexError)"
    using ip' it by (rule Cons.IH)
  show ?case
  proof (cases "i \<le> 0")
    case True
    then show ?thesis using c x Cons.prems(1) by (auto simp: item_unfold [of p] isNil_instance)
  next
    case False
    then have n: "nat i = Suc (nat (i - 1))" by simp
    show ?thesis
    proof (cases "is_cons (Some p')")
      case True
      then show ?thesis using False c p' ih Cons.prems(1) n
        by (auto simp: item_unfold [of p] isNil_instance)
    next
      case e: False
      then have "iterator p' = Inr []" by (rule iterator_empty)
      with it have "xs = []" by simp
      then show ?thesis using False c p' e Cons.prems(1)
        by (auto simp: item_unfold [of p] isNil_instance)
    qed
  qed
qed

lemma item_items:
  "item (fst (items_to_cons xs h)) i =
     (if 0 \<le> i \<and> i < int (length xs) then Inr (xs ! nat i) else Inl IndexError)"
  by (rule item_iterator) (simp_all add: iterator_items)

text \<open>
  Claim C3. \<^verbatim>\<open>items_to_cons\<close> of no item is \<open>nil\<close>. Of the items \<open>xs\<close> it is a list of
  length \<open>length xs\<close> whose rest chain runs through the lists of the remaining items
  and ends in \<open>nil\<close>, which yields the items in their order, and whose \<^verbatim>\<open>item(i)\<close> is the very
  handle \<open>xs ! i\<close> for \<open>0 \<le> i < length xs\<close> and throws the index error for every other
  \<open>i\<close>.
\<close>

theorem items_to_cons_item:
  "fst (items_to_cons [] h) = nil \<and>
   Cons_length (fst (items_to_cons xs h)) = Inr (length xs) \<and>
   iterator (fst (items_to_cons xs h)) = Inr xs \<and>
   chain_end (fst (items_to_cons xs h)) = Inr nil \<and>
   Cons_cdr (fst (items_to_cons (y # ys) h)) = Inr (fst (items_to_cons ys h)) \<and>
   (0 \<le> i \<and> i < int (length xs) \<longrightarrow> item (fst (items_to_cons xs h)) i = Inr (xs ! nat i)) \<and>
   (i < 0 \<or> int (length xs) \<le> i \<longrightarrow> item (fst (items_to_cons xs h)) i = Inl IndexError)"
  by (auto simp: Cons_length_items iterator_items chain_end_items item_items)

theorem items_to_cons_item_witness:
  "(0::int) \<le> 2 \<and> (2::int) < int (length [Atom 1 ''a'', Atom 2 ''b'', Atom 3 ''c'']) \<and>
   item (fst (items_to_cons [Atom 1 ''a'', Atom 2 ''b'', Atom 3 ''c''] 10)) 2 = Inr (Atom 3 ''c'') \<and>
   int (length [Atom 1 ''a'', Atom 2 ''b'', Atom 3 ''c'']) \<le> 3 \<and>
   item (fst (items_to_cons [Atom 1 ''a'', Atom 2 ''b'', Atom 3 ''c''] 10)) 3 = Inl IndexError \<and>
   (-1::int) < 0 \<and>
   item (fst (items_to_cons [Atom 1 ''a'', Atom 2 ''b'', Atom 3 ''c''] 10)) (-1) = Inl IndexError"
  using items_to_cons_item [of 10 "[Atom 1 ''a'', Atom 2 ''b'', Atom 3 ''c'']" _ _ 2]
    items_to_cons_item [of 10 "[Atom 1 ''a'', Atom 2 ''b'', Atom 3 ''c'']" _ _ 3]
    items_to_cons_item [of 10 "[Atom 1 ''a'', Atom 2 ''b'', Atom 3 ''c'']" _ _ "-1"]
  by simp


section \<open>Positional accessors\<close>

lemma Cons_car_nil [simp]: "Cons_car nil = nil"
  by (simp add: nil_def)

lemma Cons_cdr_nil [simp]: "Cons_cdr nil = Inr nil"
  by (simp add: nil_def)

lemma base_item:
  assumes "instanceof_Cons p" and "item p 1 = Inr x"
  shows "base p = Inr x"
proof -
  from assms obtain al where "Cons_cdr p = Inr al" "is_cons (Some al)" "item al 0 = Inr x"
    by (auto simp: item_unfold [of p] split: if_splits sum.splits)
  moreover from this have "instanceof_Cons al" by (simp add: is_cons_instance)
  ultimately show ?thesis
    by (auto simp: base_def argList_def head_def item_unfold [of al] split: if_splits)
qed

lemma expo_item:
  assumes "instanceof_Cons p" and "item p 2 = Inr x"
  shows "expo p = Inr x"
proof -
  from assms obtain al where al: "Cons_cdr p = Inr al" "is_cons (Some al)" "item al 1 = Inr x"
    by (auto simp: item_unfold [of p] split: if_splits sum.splits)
  then have ial: "instanceof_Cons al" by (simp add: is_cons_instance)
  with al(3) obtain al2 where al2: "Cons_cdr al = Inr al2" "is_cons (Some al2)" "item al2 0 = Inr x"
    by (auto simp: item_unfold [of al] split: if_splits sum.splits)
  then have "instanceof_Cons al2" by (simp add: is_cons_instance)
  with al2(3) have "Cons_car al2 = x"
    by (auto simp: item_unfold [of al2] split: if_splits)
  with al(1) al2(1) show ?thesis by (simp add: expo_def)
qed

lemma base_items:
  "base (fst (items_to_cons xs h)) = Inr (if 1 < length xs then xs ! 1 else nil)"
proof (cases xs)
  case Nil
  then show ?thesis by (simp add: base_def argList_def head_def)
next
  case (Cons x ys)
  then show ?thesis by (cases ys) (simp_all add: base_def argList_def head_def)
qed

lemma expo_items:
  "expo (fst (items_to_cons xs h)) = Inr (if 2 < length xs then xs ! 2 else nil)"
proof (cases xs)
  case Nil
  then show ?thesis by (simp add: expo_def)
next
  case c1: (Cons x ys)
  show ?thesis
  proof (cases ys)
    case Nil
    with c1 show ?thesis by (simp add: expo_def)
  next
    case c2: (Cons y zs)
    with c1 show ?thesis by (cases zs) (simp_all add: expo_def)
  qed
qed

lemma Cons_car_empty: "instanceof_Cons p \<Longrightarrow> \<not> is_cons (Some p) \<Longrightarrow> Cons_car p = nil"
  by (cases p) (auto split: option.splits)

lemma item_index_error_rest:
  assumes i: "instanceof_Cons p" and c: "is_cons (Some p)" and k: "0 < k"
    and e: "item p k = Inl IndexError"
  shows "\<exists>al. Cons_cdr p = Inr al \<and> instanceof_Cons al \<and>
    (\<not> is_cons (Some al) \<or> item al (k - 1) = Inl IndexError)"
proof (cases "Cons_cdr p")
  case (Inl err)
  then have "err = Error []" using i by (rule Cons_cdr_error [rotated])
  with Inl e i c k show ?thesis by (simp add: item_unfold [of p] isNil_instance)
next
  case (Inr al)
  then have ial: "instanceof_Cons al" using i by (rule Cons_cdr_instance [rotated])
  from Inr e i c k have "\<not> is_cons (Some al) \<or> item al (k - 1) = Inl IndexError"
    by (auto simp: item_unfold [of p] isNil_instance split: if_splits)
  with Inr ial show ?thesis by simp
qed

lemma chain_end_nil_empty:
  "instanceof_Cons p \<Longrightarrow> \<not> is_cons (Some p) \<Longrightarrow> chain_end p = Inr nil \<Longrightarrow> p = nil"
  by (simp add: chain_end_empty)

lemma base_short:
  assumes i: "instanceof_Cons p" and ce: "chain_end p = Inr nil"
    and e: "item p 1 = Inl IndexError"
  shows "base p = Inr nil"
proof (cases "is_cons (Some p)")
  case False
  with i ce have "p = nil" by (simp add: chain_end_nil_empty)
  then show ?thesis by (simp add: base_def argList_def head_def)
next
  case True
  with i e obtain al where al: "Cons_cdr p = Inr al" "instanceof_Cons al"
    "\<not> is_cons (Some al) \<or> item al (1 - 1) = Inl IndexError"
    using item_index_error_rest [of _ 1] by fastforce
  have "\<not> is_cons (Some al)"
  proof
    assume "is_cons (Some al)"
    with al(2,3) show False by (simp add: item_unfold [of al] isNil_instance)
  qed
  with al(2) have "Cons_car al = nil" by (rule Cons_car_empty)
  with al(1) show ?thesis by (simp add: base_def argList_def head_def)
qed

lemma expo_short:
  assumes i: "instanceof_Cons p" and ce: "chain_end p = Inr nil"
    and e: "item p 2 = Inl IndexError"
  shows "expo p = Inr nil"
proof (cases "is_cons (Some p)")
  case False
  with i ce have "p = nil" by (simp add: chain_end_nil_empty)
  then show ?thesis by (simp add: expo_def)
next
  case True
  with i e obtain al where al: "Cons_cdr p = Inr al" "instanceof_Cons al"
    "\<not> is_cons (Some al) \<or> item al (2 - 1) = Inl IndexError"
    using item_index_error_rest [of _ 2] by fastforce
  from True al(1) ce have ce': "chain_end al = Inr nil" by (simp add: chain_end_step [of p al])
  show ?thesis
  proof (cases "is_cons (Some al)")
    case False
    with al(2) ce' have "al = nil" by (simp add: chain_end_nil_empty)
    with al(1) show ?thesis by (simp add: expo_def)
  next
    case c2: True
    with al(3) have e1: "item al 1 = Inl IndexError" by simp
    from al(2) c2 e1 obtain al2 where al2: "Cons_cdr al = Inr al2" "instanceof_Cons al2"
      "\<not> is_cons (Some al2) \<or> item al2 (1 - 1) = Inl IndexError"
      using item_index_error_rest [of _ 1] by fastforce
    have "\<not> is_cons (Some al2)"
    proof
      assume "is_cons (Some al2)"
      with al2(2,3) show False by (simp add: item_unfold [of al2] isNil_instance)
    qed
    with al2(2) have "Cons_car al2 = nil" by (rule Cons_car_empty)
    with al(1) al2(1) show ?thesis by (simp add: expo_def)
  qed
qed

lemma base_error: "instanceof_Cons p \<Longrightarrow> base p = Inl err \<Longrightarrow> err = Error []"
  by (auto simp: base_def argList_def split: sum.splits dest: Cons_cdr_error)

lemma expo_error: "instanceof_Cons p \<Longrightarrow> expo p = Inl err \<Longrightarrow> err = Error []"
  by (auto simp: expo_def split: sum.splits dest: Cons_cdr_error Cons_cdr_instance)

lemma well_shaped_Cons_cdr:
  "instanceof_Cons p \<Longrightarrow> well_shaped p \<Longrightarrow> \<exists>d. Cons_cdr p = Inr d \<and> instanceof_Cons d \<and> well_shaped d"
  by (cases p) (auto simp: nil_def split: option.splits)

lemma base_well_shaped: "instanceof_Cons p \<Longrightarrow> well_shaped p \<Longrightarrow> \<exists>y. base p = Inr y"
  using well_shaped_Cons_cdr [of p] by (auto simp: base_def argList_def)

lemma expo_well_shaped: "instanceof_Cons p \<Longrightarrow> well_shaped p \<Longrightarrow> \<exists>y. expo p = Inr y"
proof -
  assume "instanceof_Cons p" "well_shaped p"
  then obtain d where d: "Cons_cdr p = Inr d" "instanceof_Cons d" "well_shaped d"
    using well_shaped_Cons_cdr by blast
  then obtain dd where "Cons_cdr d = Inr dd" using well_shaped_Cons_cdr by blast
  with d(1) show ?thesis by (simp add: expo_def)
qed

text \<open>
  Claim C4, as the code has it. \<^verbatim>\<open>opr\<close>, \<^verbatim>\<open>arg\<close>, \<^verbatim>\<open>lhs\<close> and \<^verbatim>\<open>rhs\<close> are
  \<^verbatim>\<open>item(0)\<close>, \<^verbatim>\<open>item(1)\<close>, \<^verbatim>\<open>item(1)\<close> and \<^verbatim>\<open>item(2)\<close>, throws included.
  \<^verbatim>\<open>base\<close> and \<^verbatim>\<open>expo\<close> return what \<^verbatim>\<open>item(1)\<close> and \<^verbatim>\<open>item(2)\<close> return whenever
  these return. They never throw the index error: they return on every well shaped pair
  node, and throw the error of the accessor \<^verbatim>\<open>cdr\<close> when the rest slot of the node
  holds an atom. On a pair node whose rest chain ends in \<open>nil\<close> and is too short for
  the position, so that \<^verbatim>\<open>item\<close> throws the index error, they return \<open>nil\<close>; the
  lists that \<^verbatim>\<open>items_to_cons\<close> builds are such nodes.
\<close>

theorem positional_accessors:
  "opr p = item p 0 \<and> arg p = item p 1 \<and> lhs p = item p 1 \<and> rhs p = item p 2 \<and>
   (instanceof_Cons p \<and> item p 1 = Inr x \<longrightarrow> base p = Inr x) \<and>
   (instanceof_Cons p \<and> item p 2 = Inr x \<longrightarrow> expo p = Inr x) \<and>
   (instanceof_Cons p \<longrightarrow> base p \<noteq> Inl IndexError \<and> expo p \<noteq> Inl IndexError) \<and>
   (instanceof_Cons p \<and> well_shaped p \<longrightarrow> (\<exists>y. base p = Inr y) \<and> (\<exists>z. expo p = Inr z)) \<and>
   (instanceof_Cons p \<and> chain_end p = Inr nil \<and> item p 1 = Inl IndexError \<longrightarrow> base p = Inr nil) \<and>
   (instanceof_Cons p \<and> chain_end p = Inr nil \<and> item p 2 = Inl IndexError \<longrightarrow> expo p = Inr nil) \<and>
   base (ConsU r a (Some (Atom r' v)) ps e) = Inl (Error []) \<and>
   expo (ConsU r a (Some (Atom r' v)) ps e) = Inl (Error []) \<and>
   base (fst (items_to_cons xs h)) = Inr (if 1 < length xs then xs ! 1 else nil) \<and>
   expo (fst (items_to_cons xs h)) = Inr (if 2 < length xs then xs ! 2 else nil) \<and>
   item (fst (items_to_cons xs h)) 1 = (if 1 < length xs then Inr (xs ! 1) else Inl IndexError) \<and>
   item (fst (items_to_cons xs h)) 2 = (if 2 < length xs then Inr (xs ! 2) else Inl IndexError)"
proof (intro conjI impI)
  show "opr p = item p 0" by (simp add: opr_def)
  show "arg p = item p 1" by (simp add: arg_def)
  show "lhs p = item p 1" by (simp add: lhs_def)
  show "rhs p = item p 2" by (simp add: rhs_def)
  show "base p = Inr x" if "instanceof_Cons p \<and> item p 1 = Inr x"
    using that by (simp add: base_item)
  show "expo p = Inr x" if "instanceof_Cons p \<and> item p 2 = Inr x"
    using that by (simp add: expo_item)
  show "base p \<noteq> Inl IndexError" if "instanceof_Cons p"
    using base_error [OF that, of IndexError] by auto
  show "expo p \<noteq> Inl IndexError" if "instanceof_Cons p"
    using expo_error [OF that, of IndexError] by auto
  show "\<exists>y. base p = Inr y" if "instanceof_Cons p \<and> well_shaped p"
    using that by (simp add: base_well_shaped)
  show "\<exists>z. expo p = Inr z" if "instanceof_Cons p \<and> well_shaped p"
    using that by (simp add: expo_well_shaped)
  show "base p = Inr nil"
    if "instanceof_Cons p \<and> chain_end p = Inr nil \<and> item p 1 = Inl IndexError"
    using that by (simp add: base_short)
  show "expo p = Inr nil"
    if "instanceof_Cons p \<and> chain_end p = Inr nil \<and> item p 2 = Inl IndexError"
    using that by (simp add: expo_short)
  show "base (ConsU r a (Some (Atom r' v)) ps e) = Inl (Error [])"
    by (simp add: base_def argList_def)
  show "expo (ConsU r a (Some (Atom r' v)) ps e) = Inl (Error [])"
    by (simp add: expo_def)
  show "base (fst (items_to_cons xs h)) = Inr (if 1 < length xs then xs ! 1 else nil)"
    by (rule base_items)
  show "expo (fst (items_to_cons xs h)) = Inr (if 2 < length xs then xs ! 2 else nil)"
    by (rule expo_items)
  show "item (fst (items_to_cons xs h)) 1 = (if 1 < length xs then Inr (xs ! 1) else Inl IndexError)"
    by (simp add: item_items)
  show "item (fst (items_to_cons xs h)) 2 = (if 2 < length xs then Inr (xs ! 2) else Inl IndexError)"
    by (simp add: item_items)
qed

theorem positional_accessors_witness:
  "instanceof_Cons (fst (items_to_cons [Atom 1 ''foo'', Atom 2 ''bar'', Atom 3 ''baz''] 10)) \<and>
   well_shaped (fst (items_to_cons [Atom 1 ''foo'', Atom 2 ''bar'', Atom 3 ''baz''] 10)) \<and>
   item (fst (items_to_cons [Atom 1 ''foo'', Atom 2 ''bar'', Atom 3 ''baz''] 10)) 1 = Inr (Atom 2 ''bar'') \<and>
   base (fst (items_to_cons [Atom 1 ''foo'', Atom 2 ''bar'', Atom 3 ''baz''] 10)) = Inr (Atom 2 ''bar'') \<and>
   item (fst (items_to_cons [Atom 1 ''foo'', Atom 2 ''bar'', Atom 3 ''baz''] 10)) 2 = Inr (Atom 3 ''baz'') \<and>
   expo (fst (items_to_cons [Atom 1 ''foo'', Atom 2 ''bar'', Atom 3 ''baz''] 10)) = Inr (Atom 3 ''baz'') \<and>
   instanceof_Cons (fst (items_to_cons [Atom 1 ''foo''] 10)) \<and>
   chain_end (fst (items_to_cons [Atom 1 ''foo''] 10)) = Inr nil \<and>
   item (fst (items_to_cons [Atom 1 ''foo''] 10)) 1 = Inl IndexError \<and>
   base (fst (items_to_cons [Atom 1 ''foo''] 10)) = Inr nil \<and>
   item (fst (items_to_cons [Atom 1 ''foo''] 10)) 2 = Inl IndexError \<and>
   expo (fst (items_to_cons [Atom 1 ''foo''] 10)) = Inr nil"
proof -
  let ?X = "fst (items_to_cons [Atom 1 ''foo'', Atom 2 ''bar'', Atom 3 ''baz''] 10)"
  let ?Y = "fst (items_to_cons [Atom 1 ''foo''] 10)"
  have i: "instanceof_Cons ?X" by simp
  have w: "well_shaped ?X" by (simp add: fst_items_to_cons_Cons nil_def)
  have i1: "item ?X 1 = Inr (Atom 2 ''bar'')" by (simp add: item_items)
  have i2: "item ?X 2 = Inr (Atom 3 ''baz'')" by (simp add: item_items)
  have j: "instanceof_Cons ?Y" by simp
  have ce: "chain_end ?Y = Inr nil" by (rule chain_end_items)
  have j1: "item ?Y 1 = Inl IndexError" by (simp add: item_items)
  have j2: "item ?Y 2 = Inl IndexError" by (simp add: item_items)
  have b: "base ?X = Inr (Atom 2 ''bar'')"
    using positional_accessors [where p = ?X and x = "Atom 2 ''bar''"] i i1 by simp
  have x: "expo ?X = Inr (Atom 3 ''baz'')"
    using positional_accessors [where p = ?X and x = "Atom 3 ''baz''"] i i2 by simp
  have sb: "base ?Y = Inr nil"
    using positional_accessors [where p = ?Y] j ce j1 by simp
  have sx: "expo ?Y = Inr nil"
    using positional_accessors [where p = ?Y] j ce j2 by simp
  show ?thesis
    by (intro conjI) (fact i w i1 b i2 x j ce j1 sb j2 sx)+
qed

text \<open>
  On the list of the one item \<open>foo\<close>, \<^verbatim>\<open>item(1)\<close> and \<^verbatim>\<open>item(2)\<close> throw the index
  error while \<^verbatim>\<open>base\<close> and \<^verbatim>\<open>expo\<close> return \<open>nil\<close>.
\<close>

theorem base_expo_counterexample:
  "item (fst (items_to_cons [Atom 1 ''foo''] 10)) 1 = Inl IndexError \<and>
   base (fst (items_to_cons [Atom 1 ''foo''] 10)) = Inr nil \<and>
   item (fst (items_to_cons [Atom 1 ''foo''] 10)) 2 = Inl IndexError \<and>
   expo (fst (items_to_cons [Atom 1 ''foo''] 10)) = Inr nil"
  by (simp add: item_items base_items expo_items)

text \<open>
  The rest chain has to end in \<open>nil\<close> for that: an empty pair node may itself have a
  rest. On \<^verbatim>\<open>cons(foo, new Cons(undefined, items_to_cons(bar)))\<close> the length is 1 and
  \<^verbatim>\<open>item(2)\<close> throws the index error, while \<^verbatim>\<open>expo\<close> reads through the empty node and
  returns \<open>bar\<close>.
\<close>

lemma expo_through_empty_node:
  "Cons_length (ConsU 12 (Some (Atom 1 ''foo''))
      (Some (ConsU 11 None (Some (fst (items_to_cons [Atom 2 ''bar''] 10))) None None)) None None) =
     Inr 1 \<and>
   item (ConsU 12 (Some (Atom 1 ''foo''))
      (Some (ConsU 11 None (Some (fst (items_to_cons [Atom 2 ''bar''] 10))) None None)) None None) 2 =
     Inl IndexError \<and>
   expo (ConsU 12 (Some (Atom 1 ''foo''))
      (Some (ConsU 11 None (Some (fst (items_to_cons [Atom 2 ''bar''] 10))) None None)) None None) =
     Inr (Atom 2 ''bar'')"
  by code_simp

section \<open>Tail\<close>

lemma tail_nil: "tail nil = Inl EmptyListError"
  by (simp add: nil_def)

lemma tail_items: "tail (fst (items_to_cons (x # xs) h)) = Inr xs"
  using iterator_items [of xs h]
  by (cases xs) (simp_all add: fst_items_to_cons_Cons [of x])

text \<open>
  Claim C6. \<^verbatim>\<open>tail()\<close> of the list built from \<open>x # xs\<close> is the array \<open>xs\<close>, the same
  handles in the same order, and \<^verbatim>\<open>tail()\<close> of \<open>nil\<close>, as of any pair node whose head slot is unset, throws the
  error of the empty list.
  The operations are functions of immutable handles: no structure is changed by either.
\<close>

theorem tail_items_to_cons:
  "tail (fst (items_to_cons (x # xs) h)) = Inr xs \<and>
   tail (fst (items_to_cons (x # xs) h)) = Inr (tl (x # xs)) \<and>
   tail nil = Inl EmptyListError \<and>
   tail (ConsU r None d p e) = Inl EmptyListError"
  by (simp add: tail_items tail_nil)

section \<open>The checked constructor\<close>

text \<open>
  Claim C7. \<^verbatim>\<open>cons(car, cdr)\<close> succeeds exactly when \<open>cdr\<close> is a \<^verbatim>\<open>Cons\<close>, \<open>nil\<close>
  included. It then allocates one pair node, which holds the two arguments in its slots.
  It throws its error for every other \<open>cdr\<close>, an atom for one, and allocates nothing.
\<close>

theorem cons_checks_shape:
  "(instanceof_Cons rest \<longrightarrow>
      cons x0 rest pos endp h = Inr (ConsU h (Some x0) (Some rest) pos endp, Suc h) \<and>
      Cons_car (ConsU h (Some x0) (Some rest) pos endp) = x0 \<and>
      Cons_cdr (ConsU h (Some x0) (Some rest) pos endp) = Inr rest) \<and>
   (\<not> instanceof_Cons rest \<longrightarrow> cons x0 rest pos endp h = Inl ShapeError) \<and>
   ((\<exists>res. cons x0 rest pos endp h = Inr res) \<longleftrightarrow> instanceof_Cons rest) \<and>
   cons x0 nil pos endp h = Inr (ConsU h (Some x0) (Some nil) pos endp, Suc h) \<and>
   cons x0 (Atom r v) pos endp h = Inl ShapeError"
  by (simp add: cons_def new_Cons_def)

theorem cons_checks_shape_witness:
  "instanceof_Cons (ConsU 4 (Some (Atom 2 ''bar'')) (Some nil) None None) \<and>
   cons (Atom 1 ''foo'') (ConsU 4 (Some (Atom 2 ''bar'')) (Some nil) None None) None None 5 =
     Inr (ConsU 5 (Some (Atom 1 ''foo''))
       (Some (ConsU 4 (Some (Atom 2 ''bar'')) (Some nil) None None)) None None, 6) \<and>
   \<not> instanceof_Cons (Atom 2 ''bar'') \<and>
   cons (Atom 1 ''foo'') (Atom 2 ''bar'') None None 5 = Inl ShapeError"
  using cons_checks_shape [of "ConsU 4 (Some (Atom 2 ''bar'')) (Some nil) None None"
      "Atom 1 ''foo''" None None 5]
    cons_checks_shape [of "Atom 2 ''bar''" "Atom 1 ''foo''" None None 5]
  by simp

section \<open>The free accessors\<close>

lemma Cons_cdr_well_shaped:
  "instanceof_Cons x \<Longrightarrow> well_shaped x \<Longrightarrow> \<exists>y. Cons_cdr x = Inr y"
  by (cases x) (auto split: option.splits)

lemma cdr_well_shaped: "well_shaped x \<Longrightarrow> \<exists>y. cdr x = Inr y"
  by (cases "is_cons (Some x)") (auto simp: cdr_def dest: is_cons_instance Cons_cdr_well_shaped)

text \<open>
  Claim C8. \<^verbatim>\<open>car(x)\<close> is a total function: it returns the head of a pair node whose
  head slot is set and \<open>nil\<close> for every other handle. On a well shaped handle
  \<^verbatim>\<open>cdr(x)\<close> returns too: the handle in the rest slot of a pair node whose head slot is
  set, \<open>nil\<close> when that slot is unset, and \<open>nil\<close> for an empty pair node and for an atom.
  On a well shaped pair node the accessor \<^verbatim>\<open>cdr\<close> never takes its throwing branch.
\<close>

theorem car_cdr_total:
  "car (ConsU r (Some x0) d p e) = x0 \<and>
   car (ConsU r None d p e) = nil \<and>
   car (Atom r' v) = nil \<and>
   (well_shaped x \<longrightarrow> (\<exists>y. cdr x = Inr y)) \<and>
   (well_shaped (ConsU r (Some x0) (Some t) p e) \<longrightarrow>
      cdr (ConsU r (Some x0) (Some t) p e) = Inr t) \<and>
   cdr (ConsU r (Some x0) None p e) = Inr nil \<and>
   cdr (ConsU r None d p e) = Inr nil \<and>
   cdr (Atom r' v) = Inr nil \<and>
   (well_shaped x \<and> instanceof_Cons x \<longrightarrow> (\<exists>y. Cons_cdr x = Inr y))"
  using cdr_well_shaped [of x] Cons_cdr_well_shaped [of x]
  by (simp add: car_def cdr_def)

theorem car_cdr_total_witness:
  "well_shaped (ConsU 5 (Some (Atom 1 ''foo'')) (Some (ConsU 4 (Some (Atom 2 ''bar'')) (Some nil) None None)) None None) \<and>
   instanceof_Cons (ConsU 5 (Some (Atom 1 ''foo'')) (Some (ConsU 4 (Some (Atom 2 ''bar'')) (Some nil) None None)) None None) \<and>
   car (ConsU 5 (Some (Atom 1 ''foo'')) (Some (ConsU 4 (Some (Atom 2 ''bar'')) (Some nil) None None)) None None) = Atom 1 ''foo'' \<and>
   cdr (ConsU 5 (Some (Atom 1 ''foo'')) (Some (ConsU 4 (Some (Atom 2 ''bar'')) (Some nil) None None)) None None) =
     Inr (ConsU 4 (Some (Atom 2 ''bar'')) (Some nil) None None) \<and>
   Cons_cdr (ConsU 5 (Some (Atom 1 ''foo'')) (Some (ConsU 4 (Some (Atom 2 ''bar'')) (Some nil) None None)) None None) =
     Inr (ConsU 4 (Some (Atom 2 ''bar'')) (Some nil) None None)"
  using car_cdr_total [of 5 "Atom 1 ''foo''" "Some (ConsU 4 (Some (Atom 2 ''bar'')) (Some nil) None None)"
      None None _ _ "ConsU 5 (Some (Atom 1 ''foo'')) (Some (ConsU 4 (Some (Atom 2 ''bar'')) (Some nil) None None)) None None"
      "ConsU 4 (Some (Atom 2 ''bar'')) (Some nil) None None"]
  by (simp add: nil_def)

section \<open>Mapping\<close>

lemma iterator_Nil_iff: "iterator p = Inr [] \<Longrightarrow> \<not> is_cons (Some p)"
proof
  assume "iterator p = Inr []" "is_cons (Some p)"
  then show False by (simp add: iterator.simps [of p] split: sum.splits)
qed

lemma iterator_Cons_dest:
  assumes "iterator p = Inr (x # xs)"
  obtains p' where "is_cons (Some p)" "Cons_cdr p = Inr p'" "iterator p' = Inr xs" "Cons_car p = x"
proof -
  have c: "is_cons (Some p)"
  proof (rule ccontr)
    assume "\<not> is_cons (Some p)"
    then have "iterator p = Inr []" by (rule iterator_empty)
    with assms show False by simp
  qed
  with assms obtain p' where "Cons_cdr p = Inr p'" "iterator p' = Inr xs" "Cons_car p = x"
    by (auto simp: iterator.simps [of p] split: sum.splits)
  with c show thesis by (rule that)
qed

lemma Cons_length_iterator:
  "instanceof_Cons p \<Longrightarrow> iterator p = Inr xs \<Longrightarrow> Cons_length p = Inr (length xs)"
proof (induction xs arbitrary: p)
  case Nil
  then have "\<not> is_cons (Some p)" by (simp add: iterator_Nil_iff)
  with Nil.prems(1) show ?case by (simp add: Cons_length_unfold isNil_instance)
next
  case (Cons x xs)
  from Cons.prems(2) obtain p' where
    c: "is_cons (Some p)" and p': "Cons_cdr p = Inr p'" and it: "iterator p' = Inr xs"
    by (rule iterator_Cons_dest)
  have ip': "instanceof_Cons p'" using Cons.prems(1) p' by (rule Cons_cdr_instance)
  have ih: "Cons_length p' = Inr (length xs)" using ip' it by (rule Cons.IH)
  show ?case
  proof (cases "is_cons (Some p')")
    case True
    then show ?thesis using c p' ih Cons.prems(1)
      by (simp add: Cons_length_unfold [of p] isNil_instance)
  next
    case False
    then have "iterator p' = Inr []" by (rule iterator_empty)
    with it have "xs = []" by simp
    then show ?thesis using c p' False Cons.prems(1)
      by (simp add: Cons_length_unfold [of p] isNil_instance)
  qed
qed

lemma Cons_map_empty: "instanceof_Cons p \<Longrightarrow> \<not> is_cons (Some p) \<Longrightarrow> Cons_map f p h = Inr (p, h)"
  by (cases p) auto

lemma Cons_map_step:
  assumes "is_cons (Some p)" and "Cons_cdr p = Inr b"
    and "(if is_cons (Some b) then Cons_map f b h else Inr (b, h)) = Inr (b', h')"
  shows "\<exists>ps e. Cons_map f p h = Inr (ConsU h' (Some (f (Cons_car p))) (Some b') ps e, Suc h')"
proof (cases p)
  case (Atom r v)
  with assms(1) show ?thesis by simp
next
  case (ConsU r a d ps e)
  with assms show ?thesis
    by (cases a) (auto simp: new_Cons_def simp del: Cons_cdr.simps Cons_car.simps)
qed

lemma Cons_map_iterator:
  "instanceof_Cons p \<Longrightarrow> iterator p = Inr xs \<Longrightarrow>
   \<exists>q. Cons_map f p h = Inr (q, h + length xs) \<and> instanceof_Cons q \<and>
       iterator q = Inr (map f xs) \<and> chain_end q = chain_end p \<and> (xs = [] \<longrightarrow> q = p)"
proof (induction xs arbitrary: p)
  case Nil
  then have e: "\<not> is_cons (Some p)" by (simp add: iterator_Nil_iff)
  with Nil.prems(1) have "Cons_map f p h = Inr (p, h)" by (rule Cons_map_empty)
  with Nil show ?case by simp
next
  case (Cons x xs)
  from Cons.prems(2) obtain p' where
    c: "is_cons (Some p)" and p': "Cons_cdr p = Inr p'" and it: "iterator p' = Inr xs"
    and x: "Cons_car p = x"
    by (rule iterator_Cons_dest)
  have ip': "instanceof_Cons p'" using Cons.prems(1) p' by (rule Cons_cdr_instance)
  from Cons.IH [OF ip' it] obtain q' where
    m: "Cons_map f p' h = Inr (q', h + length xs)" and iq': "instanceof_Cons q'"
    and itq: "iterator q' = Inr (map f xs)" and ce: "chain_end q' = chain_end p'"
    and same: "xs = [] \<longrightarrow> q' = p'"
    by blast
  have "(if is_cons (Some p') then Cons_map f p' h else Inr (p', h)) = Inr (q', h + length xs)"
  proof (cases "is_cons (Some p')")
    case True
    with m show ?thesis by simp
  next
    case False
    then have "iterator p' = Inr []" by (rule iterator_empty)
    with it have "xs = []" by simp
    with same False show ?thesis by simp
  qed
  with c p' obtain ps e where
    q: "Cons_map f p h = Inr (ConsU (h + length xs) (Some (f (Cons_car p))) (Some q') ps e, Suc (h + length xs))"
    using Cons_map_step [of p p' f h q' "h + length xs"] by blast
  let ?q = "ConsU (h + length xs) (Some (f (Cons_car p))) (Some q') ps e"
  have cq: "Cons_cdr ?q = Inr q'" using iq' by simp
  have "iterator ?q = Inr (Cons_car ?q # map f xs)"
    by (rule iterator_step [OF _ cq itq]) simp
  then have i: "iterator ?q = Inr (map f (x # xs))" using x by simp
  have "chain_end ?q = chain_end q'" by (rule chain_end_step [OF _ cq]) simp
  also have "\<dots> = chain_end p'" by (rule ce)
  also have "\<dots> = chain_end p" by (rule chain_end_step [OF c p', symmetric])
  finally have "chain_end ?q = chain_end p" .
  with q i show ?case by simp
qed

lemma Cons_map_nil: "Cons_map f nil h = Inr (nil, h)"
  by (simp add: nil_def)

lemma Cons_map_items:
  "Cons_map f (fst (items_to_cons xs h0)) h = Inr (items_to_cons (map f xs) h)"
proof (induction xs)
  case Nil
  show ?case by (simp add: Cons_map_nil)
next
  case (Cons x xs)
  have "(if is_cons (Some (fst (items_to_cons xs h0)))
         then Cons_map f (fst (items_to_cons xs h0)) h else Inr (fst (items_to_cons xs h0), h)) =
        Inr (items_to_cons (map f xs) h)"
    using Cons by (cases xs) simp_all
  then show ?case
    by (simp add: fst_items_to_cons_Cons [of x xs] items_to_cons_Cons [of "f x"] new_Cons_def
        split: prod.splits)
qed

text \<open>
  Claim C9. For a pair node \<open>p\<close> whose rest chain yields the elements \<open>xs\<close>,
  \<^verbatim>\<open>p.map(f)\<close> returns a pair node of the same length that yields \<open>map f xs\<close>, its
  \<open>i\<close>-th item being \<open>f\<close> of the \<open>i\<close>-th element, and whose rest chain ends in the very
  handle in which the chain of \<open>p\<close> ends. It allocates one node for each element. For a
  list built by \<^verbatim>\<open>items_to_cons\<close> the result is the list that \<^verbatim>\<open>items_to_cons\<close> builds
  from the mapped items. Mapping \<open>nil\<close> returns the object \<open>nil\<close> and allocates nothing.
\<close>

theorem Cons_map_preserves:
  "(instanceof_Cons p \<and> iterator p = Inr xs \<longrightarrow>
      (\<exists>q. Cons_map f p h = Inr (q, h + length xs) \<and>
           Cons_length p = Inr (length xs) \<and>
           Cons_length q = Inr (length xs) \<and>
           iterator q = Inr (map f xs) \<and>
           (\<forall>i. 0 \<le> i \<and> i < int (length xs) \<longrightarrow> item q i = Inr (f (xs ! nat i))) \<and>
           chain_end q = chain_end p)) \<and>
   Cons_map f (fst (items_to_cons ys h0)) h = Inr (items_to_cons (map f ys) h) \<and>
   Cons_map f nil h = Inr (nil, h)"
proof (intro conjI impI)
  assume a: "instanceof_Cons p \<and> iterator p = Inr xs"
  then obtain q where m: "Cons_map f p h = Inr (q, h + length xs)" and iq: "instanceof_Cons q"
    and it: "iterator q = Inr (map f xs)" and ce: "chain_end q = chain_end p"
    using Cons_map_iterator [of p xs f h] by blast
  have lp: "Cons_length p = Inr (length xs)" using a by (simp add: Cons_length_iterator)
  have "Cons_length q = Inr (length (map f xs))" using iq it by (rule Cons_length_iterator)
  then have lq: "Cons_length q = Inr (length xs)" by simp
  have "\<forall>i. 0 \<le> i \<and> i < int (length xs) \<longrightarrow> item q i = Inr (f (xs ! nat i))"
    using item_iterator [OF iq it] by (auto simp: nat_less_iff)
  with m lp lq it ce
  show "\<exists>q. Cons_map f p h = Inr (q, h + length xs) \<and>
           Cons_length p = Inr (length xs) \<and>
           Cons_length q = Inr (length xs) \<and>
           iterator q = Inr (map f xs) \<and>
           (\<forall>i. 0 \<le> i \<and> i < int (length xs) \<longrightarrow> item q i = Inr (f (xs ! nat i))) \<and>
           chain_end q = chain_end p"
    by blast
next
  show "Cons_map f (fst (items_to_cons ys h0)) h = Inr (items_to_cons (map f ys) h)"
    by (rule Cons_map_items)
next
  show "Cons_map f nil h = Inr (nil, h)" by (rule Cons_map_nil)
qed


theorem Cons_map_preserves_witness:
  "instanceof_Cons (ConsU 5 (Some (Atom 1 ''foo'')) (Some (ConsU 4 None None (Some 23) (Some 26))) None None) \<and>
   iterator (ConsU 5 (Some (Atom 1 ''foo'')) (Some (ConsU 4 None None (Some 23) (Some 26))) None None) =
     Inr [Atom 1 ''foo''] \<and>
   (\<exists>q. Cons_map (\<lambda>u. Atom 7 ''mapped'')
          (ConsU 5 (Some (Atom 1 ''foo'')) (Some (ConsU 4 None None (Some 23) (Some 26))) None None) 20 =
          Inr (q, 21) \<and>
        Cons_length q = Inr 1 \<and>
        iterator q = Inr [Atom 7 ''mapped''] \<and>
        item q 0 = Inr (Atom 7 ''mapped'') \<and>
        chain_end q = Inr (ConsU 4 None None (Some 23) (Some 26)))"
proof -
  let ?p = "ConsU 5 (Some (Atom 1 ''foo'')) (Some (ConsU 4 None None (Some 23) (Some 26))) None None"
  have h: "instanceof_Cons ?p \<and> iterator ?p = Inr [Atom 1 ''foo'']"
    by code_simp
  have ce: "chain_end ?p = Inr (ConsU 4 None None (Some 23) (Some 26))"
    by code_simp
  from Cons_map_preserves [of ?p "[Atom 1 ''foo'']" "\<lambda>u. Atom 7 ''mapped''" 20] h
  obtain q where "Cons_map (\<lambda>u. Atom 7 ''mapped'') ?p 20 = Inr (q, 20 + length [Atom 1 ''foo''])"
    "Cons_length q = Inr (length [Atom 1 ''foo''])"
    "iterator q = Inr (map (\<lambda>u. Atom 7 ''mapped'') [Atom 1 ''foo''])"
    "\<forall>i. 0 \<le> i \<and> i < int (length [Atom 1 ''foo'']) \<longrightarrow>
       item q i = Inr ((\<lambda>u. Atom 7 ''mapped'') ([Atom 1 ''foo''] ! nat i))"
    "chain_end q = chain_end ?p"
    by blast
  then have "Cons_map (\<lambda>u. Atom 7 ''mapped'') ?p 20 = Inr (q, 21) \<and>
        Cons_length q = Inr 1 \<and>
        iterator q = Inr [Atom 7 ''mapped''] \<and>
        item q 0 = Inr (Atom 7 ''mapped'') \<and>
        chain_end q = Inr (ConsU 4 None None (Some 23) (Some 26))"
    using ce by simp
  with h show ?thesis by blast
qed

section \<open>Containment of held handles\<close>

lemma linked_Cons_car: "is_cons (Some p) \<Longrightarrow> linked p \<Longrightarrow> linked (Cons_car p)"
  by (cases p) (auto split: option.splits)

lemma linked_Cons_cdr: "is_cons (Some p) \<Longrightarrow> linked p \<Longrightarrow> \<exists>p'. Cons_cdr p = Inr p' \<and> linked p'"
  by (cases p) (auto split: option.splits)

lemma equals_linked_returns:
  "linked a \<Longrightarrow> linked b \<Longrightarrow> \<exists>v. equals a b = Inr v"
  "linked p1 \<Longrightarrow> linked p2 \<Longrightarrow> \<exists>v. equal_cons_cons p1 p2 = Inr v"
proof (induction a b and p1 p2 rule: equals_equal_cons_cons.induct)
  case (1 r v other)
  show ?case by (cases other) auto
next
  case (2 r a d p e other)
  then show ?case by auto
next
  case (3 p1 p2)
  show ?case
  proof (cases "is_cons (Some p1) \<and> is_cons (Some p2)")
    case False
    then show ?thesis using 3(3) 3(4,5)
      by (auto simp: equal_cons_cons.simps [of p1 p2])
  next
    case both: True
    then have "linked (Cons_car p1)" "linked (Cons_car p2)"
      using 3(4,5) by (simp_all add: linked_Cons_car)
    with 3(1) both obtain v where v: "equals (Cons_car p1) (Cons_car p2) = Inr v" by blast
    show ?thesis
    proof (cases v)
      case False
      with v both show ?thesis by (auto simp: equal_cons_cons.simps [of p1 p2])
    next
      case True
      then have vT: "v = True" by simp
      from both 3(4) obtain q1 where q1: "Cons_cdr p1 = Inr q1" "linked q1"
        using linked_Cons_cdr by blast
      from both 3(5) obtain q2 where q2: "Cons_cdr p2 = Inr q2" "linked q2"
        using linked_Cons_cdr by blast
      have "\<exists>w. equal_cons_cons q1 q2 = Inr w"
        using 3(2) [OF both v vT q1(1) q2(1) q1(2) q2(2)] .
      with v True both q1 q2 show ?thesis by (auto simp: equal_cons_cons.simps [of p1 p2])
    qed
  qed
qed

lemma contains_self: "contains p p = Inr True"
  by (cases p) simp_all

lemma held_refl: "held x x"
  by (cases x) simp_all

lemma contains_linked_returns:
  "linked p \<Longrightarrow> linked x \<Longrightarrow> \<exists>v. contains p x = Inr v"
proof (induction p x rule: contains.induct)
  case (1 r v needle)
  then show ?case using equals_linked_returns(1) [of "Atom r v" needle] by simp
next
  case (2 r a d p e needle)
  let ?me = "ConsU r a d p e"
  show ?case
  proof (cases "?me = needle")
    case True
    then show ?thesis by (auto simp: contains_self)
  next
    case ne: False
    from 2(3,4) obtain v where v: "equals ?me needle = Inr v"
      using equals_linked_returns(1) by blast
    show ?thesis
    proof (cases v)
      case True
      with v ne show ?thesis by (auto simp del: equals.simps)
    next
      case False
      then have nv: "v = False" by simp
      show ?thesis
      proof (cases a)
        case None
        with v nv ne show ?thesis by (auto simp del: equals.simps)
      next
        case sa: (Some h)
        show ?thesis
        proof (cases d)
          case None
          with v nv ne sa show ?thesis by (auto simp del: equals.simps)
        next
          case sd: (Some t)
          from 2(3) sa sd have lh: "linked h" and lt: "linked t" by simp_all
          from 2(1) [OF ne v nv sa sd lh 2(4)] obtain w where w: "contains h needle = Inr w"
            by blast
          show ?thesis
          proof (cases w)
            case True
            with v nv ne sa sd w show ?thesis by (auto simp del: equals.simps)
          next
            case False
            then have nw: "w = False" by simp
            from 2(2) [OF ne v nv sa sd w nw lt 2(4)] obtain u where "contains t needle = Inr u"
              by blast
            with v nv ne sa sd w nw show ?thesis by (auto simp del: equals.simps)
          qed
        qed
      qed
    qed
  qed
qed

lemma held_linked: "held x p \<Longrightarrow> linked p \<Longrightarrow> linked x"
  by (induction x p rule: held.induct) (auto split: option.splits)

lemma contains_held:
  "linked p \<Longrightarrow> held x p \<Longrightarrow> contains p x = Inr True"
proof (induction p x rule: contains.induct)
  case (1 r v needle)
  then show ?case by simp
next
  case (2 r a d p e needle)
  let ?me = "ConsU r a d p e"
  have lx: "linked needle" using 2(4,3) by (rule held_linked)
  show ?case
  proof (cases "?me = needle")
    case True
    then show ?thesis by (auto simp: contains_self)
  next
    case ne: False
    from 2(3) lx obtain v where v: "equals ?me needle = Inr v"
      using equals_linked_returns(1) by blast
    show ?thesis
    proof (cases v)
      case True
      with v ne show ?thesis by (auto simp del: equals.simps)
    next
      case False
      then have nv: "v = False" by simp
      from 2(4) ne obtain h t where sa: "a = Some h" and sd: "d = Some t"
        and hh: "held needle h \<or> held needle t"
        using 2(3) by (auto split: option.splits)
      from 2(3) sa sd have lh: "linked h" and lt: "linked t" by simp_all
      from lh lx obtain w where w: "contains h needle = Inr w"
        using contains_linked_returns by blast
      show ?thesis
      proof (cases w)
        case True
        with v nv ne sa sd w show ?thesis by (auto simp del: equals.simps)
      next
        case False
        then have nw: "w = False" by simp
        have "\<not> held needle h"
        proof
          assume "held needle h"
          with 2(1) [OF ne v nv sa sd lh] have "contains h needle = Inr True" .
          with w nw show False by simp
        qed
        with hh have "held needle t" by simp
        with 2(2) [OF ne v nv sa sd w nw lt] have "contains t needle = Inr True" .
        with v nv ne sa sd w nw show ?thesis by (auto simp del: equals.simps)
      qed
    qed
  qed
qed

lemma linked_items: "linked (fst (items_to_cons xs h)) = list_all linked xs"
  by (induction xs) (simp_all add: fst_items_to_cons_Cons nil_def)

lemma held_items: "x \<in> set xs \<Longrightarrow> held x (fst (items_to_cons xs h))"
  by (induction xs) (auto simp: fst_items_to_cons_Cons held_refl)

lemma held_trans: "held x y \<Longrightarrow> held y p \<Longrightarrow> held x p"
  by (induction y p rule: held.induct) (auto split: option.splits)

text \<open>
  Claim C5, as the code has it. Every handle contains itself. Let every pair node
  inside \<open>p\<close> that has a head have a \<^verbatim>\<open>Cons\<close> in its rest slot, as in the lists that
  \<^verbatim>\<open>items_to_cons\<close> and \<^verbatim>\<open>cons\<close> build from such handles. Then \<open>p\<close> contains every
  handle held in a slot of \<open>p\<close> at any depth: the items of a built list, and the items
  of an item that is itself a list, as in
  \<^verbatim>\<open>items_to_cons(items_to_cons(a), b).contains(a)\<close>.
\<close>

theorem contains_held_handles:
  "contains p p = Inr True \<and>
   (linked p \<and> held x p \<longrightarrow> contains p x = Inr True) \<and>
   (list_all linked xs \<and> x \<in> set xs \<longrightarrow> contains (fst (items_to_cons xs h)) x = Inr True) \<and>
   (linked a \<and> linked b \<longrightarrow>
      contains (fst (items_to_cons [fst (items_to_cons [a] h'), b] h)) a = Inr True)"
proof (intro conjI impI)
  show "contains p p = Inr True" by (rule contains_self)
  show "contains p x = Inr True" if "linked p \<and> held x p"
    using that by (simp add: contains_held)
  show "contains (fst (items_to_cons xs h)) x = Inr True" if "list_all linked xs \<and> x \<in> set xs"
    using that by (simp add: contains_held linked_items held_items)
  show "contains (fst (items_to_cons [fst (items_to_cons [a] h'), b] h)) a = Inr True"
    if "linked a \<and> linked b"
  proof (rule contains_held)
    show "linked (fst (items_to_cons [fst (items_to_cons [a] h'), b] h))"
      using that by (simp add: linked_items)
    have "held a (fst (items_to_cons [a] h'))" by (simp add: held_items)
    moreover have "held (fst (items_to_cons [a] h')) (fst (items_to_cons [fst (items_to_cons [a] h'), b] h))"
      by (simp add: held_items)
    ultimately show "held a (fst (items_to_cons [fst (items_to_cons [a] h'), b] h))"
      by (rule held_trans)
  qed
qed


theorem contains_held_handles_witness:
  "linked (fst (items_to_cons [fst (items_to_cons [Atom 1 ''foo''] 10), Atom 2 ''bar''] 20)) \<and>
   held (Atom 1 ''foo'') (fst (items_to_cons [fst (items_to_cons [Atom 1 ''foo''] 10), Atom 2 ''bar''] 20)) \<and>
   contains (fst (items_to_cons [fst (items_to_cons [Atom 1 ''foo''] 10), Atom 2 ''bar''] 20))
     (Atom 1 ''foo'') = Inr True \<and>
   list_all linked [Atom 1 ''foo'', Atom 2 ''bar''] \<and>
   Atom 1 ''foo'' \<in> set [Atom 1 ''foo'', Atom 2 ''bar''] \<and>
   contains (fst (items_to_cons [Atom 1 ''foo'', Atom 2 ''bar''] 20)) (Atom 1 ''foo'') = Inr True \<and>
   linked (Atom 1 ''foo'') \<and> linked (Atom 2 ''bar'')"
proof -
  let ?Z = "fst (items_to_cons [fst (items_to_cons [Atom 1 ''foo''] 10), Atom 2 ''bar''] 20)"
  have h1: "linked ?Z \<and> held (Atom 1 ''foo'') ?Z"
    by (simp add: fst_items_to_cons_Cons nil_def)
  have h2: "list_all linked [Atom 1 ''foo'', Atom 2 ''bar''] \<and>
      Atom 1 ''foo'' \<in> set [Atom 1 ''foo'', Atom 2 ''bar'']"
    by simp
  have h3: "linked (Atom 1 ''foo'') \<and> linked (Atom 2 ''bar'')" by simp
  from contains_held_handles [where p = ?Z and x = "Atom 1 ''foo''"
      and xs = "[Atom 1 ''foo'', Atom 2 ''bar'']" and h = 20 and h' = 10
      and a = "Atom 1 ''foo''" and b = "Atom 2 ''bar''"] h1 h2 h3
  show ?thesis by blast
qed

text \<open>
  The node \<^verbatim>\<open>new Cons(foo, undefined)\<close> holds \<open>foo\<close> in its head slot and does not
  contain it. The list of \<open>foo\<close> and of a node whose rest slot holds an atom holds that
  node, and asking whether it contains it throws.
\<close>

theorem contains_counterexample:
  "contains (ConsU 7 (Some (Atom 1 ''foo'')) None None None) (Atom 1 ''foo'') = Inr False \<and>
   contains
     (fst (items_to_cons
        [Atom 1 ''foo'', ConsU 8 (Some (Atom 1 ''foo'')) (Some (Atom 2 ''bar'')) None None] 20))
     (ConsU 8 (Some (Atom 1 ''foo'')) (Some (Atom 2 ''bar'')) None None) = Inl (Error [])"
  by code_simp

section \<open>A pair node whose rest slot holds an atom\<close>

lemma equals_ill_shaped_walk:
  assumes q: "is_cons (Some q)" and ne: "q \<noteq> ConsU r (Some x0) (Some (Atom r' v)) ps e"
  shows "equals (ConsU r (Some x0) (Some (Atom r' v)) ps e) q =
     (case equals x0 (Cons_car q) of
        Inl err \<Rightarrow> Inl err
      | Inr True \<Rightarrow> Inl (Error [])
      | Inr False \<Rightarrow> Inr False)"
proof -
  let ?p = "ConsU r (Some x0) (Some (Atom r' v)) ps e"
  have "equals ?p q = equal_cons_cons ?p q" using q ne by auto
  also have "\<dots> = (case equals x0 (Cons_car q) of
        Inl err \<Rightarrow> Inl err
      | Inr True \<Rightarrow> Inl (Error [])
      | Inr False \<Rightarrow> Inr False)"
    using q by (simp add: equal_cons_cons.simps [of ?p q] split: sum.splits bool.splits)
  finally show ?thesis .
qed

text \<open>
  Claim C10, as the code has it. \<^verbatim>\<open>new Cons\<close> accepts an atom for rest slot, which
  \<^verbatim>\<open>cons\<close> refuses, and on such a node the accessor \<^verbatim>\<open>cdr\<close> throws when it is read,
  and with it \<^verbatim>\<open>base\<close> and \<^verbatim>\<open>expo\<close>.

  When the head slot of the node is set, \<^verbatim>\<open>cdr(x)\<close>, \<^verbatim>\<open>length\<close>, \<^verbatim>\<open>item(i)\<close> for
  \<open>i > 0\<close>, the iterator and \<^verbatim>\<open>map\<close> throw that error too. \<^verbatim>\<open>tail()\<close> reads the slot
  itself and returns the empty array, and \<^verbatim>\<open>item(0)\<close> returns the head. \<^verbatim>\<open>equals\<close> is
  true of the node and itself; against another pair node with its head slot set it
  throws when the two heads are \<^verbatim>\<open>equals\<close>-equal and returns false when they are not.

  When the head slot of the node is unset the node is an empty list, whose rest slot
  these operations do not read: \<^verbatim>\<open>cdr(x)\<close> returns \<open>nil\<close>, \<^verbatim>\<open>length\<close> is 0, the
  iterator yields nothing, \<^verbatim>\<open>map\<close> returns the node itself, \<^verbatim>\<open>item(i)\<close> throws the index
  error for every \<open>i\<close> and \<^verbatim>\<open>tail()\<close> the error of the empty list.
\<close>

theorem ill_shaped_node:
  "new_Cons (Some x0) (Some (Atom r' v)) ps e h = (ConsU h (Some x0) (Some (Atom r' v)) ps e, Suc h) \<and>
   cons x0 (Atom r' v) ps e h = Inl ShapeError \<and>
   Cons_cdr (ConsU r (Some x0) (Some (Atom r' v)) ps e) = Inl (Error []) \<and>
   cdr (ConsU r (Some x0) (Some (Atom r' v)) ps e) = Inl (Error []) \<and>
   Cons_length (ConsU r (Some x0) (Some (Atom r' v)) ps e) = Inl (Error []) \<and>
   (0 < i \<longrightarrow> item (ConsU r (Some x0) (Some (Atom r' v)) ps e) i = Inl (Error [])) \<and>
   iterator (ConsU r (Some x0) (Some (Atom r' v)) ps e) = Inl (Error []) \<and>
   Cons_map f (ConsU r (Some x0) (Some (Atom r' v)) ps e) h = Inl (Error []) \<and>
   base (ConsU r (Some x0) (Some (Atom r' v)) ps e) = Inl (Error []) \<and>
   expo (ConsU r (Some x0) (Some (Atom r' v)) ps e) = Inl (Error []) \<and>
   item (ConsU r (Some x0) (Some (Atom r' v)) ps e) 0 = Inr x0 \<and>
   tail (ConsU r (Some x0) (Some (Atom r' v)) ps e) = Inr [] \<and>
   equals (ConsU r (Some x0) (Some (Atom r' v)) ps e) (ConsU r (Some x0) (Some (Atom r' v)) ps e) =
     Inr True \<and>
   (is_cons (Some q) \<and> q \<noteq> ConsU r (Some x0) (Some (Atom r' v)) ps e \<and>
      equals x0 (Cons_car q) = Inr True \<longrightarrow>
      equals (ConsU r (Some x0) (Some (Atom r' v)) ps e) q = Inl (Error [])) \<and>
   (is_cons (Some q) \<and> q \<noteq> ConsU r (Some x0) (Some (Atom r' v)) ps e \<and>
      equals x0 (Cons_car q) = Inr False \<longrightarrow>
      equals (ConsU r (Some x0) (Some (Atom r' v)) ps e) q = Inr False) \<and>
   new_Cons None (Some (Atom r' v)) ps e h = (ConsU h None (Some (Atom r' v)) ps e, Suc h) \<and>
   Cons_cdr (ConsU r None (Some (Atom r' v)) ps e) = Inl (Error []) \<and>
   base (ConsU r None (Some (Atom r' v)) ps e) = Inl (Error []) \<and>
   expo (ConsU r None (Some (Atom r' v)) ps e) = Inl (Error []) \<and>
   cdr (ConsU r None (Some (Atom r' v)) ps e) = Inr nil \<and>
   Cons_length (ConsU r None (Some (Atom r' v)) ps e) = Inr 0 \<and>
   iterator (ConsU r None (Some (Atom r' v)) ps e) = Inr [] \<and>
   Cons_map f (ConsU r None (Some (Atom r' v)) ps e) h =
     Inr (ConsU r None (Some (Atom r' v)) ps e, h) \<and>
   item (ConsU r None (Some (Atom r' v)) ps e) i = Inl IndexError \<and>
   tail (ConsU r None (Some (Atom r' v)) ps e) = Inl EmptyListError"
proof (intro conjI impI)
  let ?p = "ConsU r (Some x0) (Some (Atom r' v)) ps e"
  let ?n = "ConsU r None (Some (Atom r' v)) ps e"
  show "new_Cons None (Some (Atom r' v)) ps e h = (ConsU h None (Some (Atom r' v)) ps e, Suc h)"
    by (simp add: new_Cons_def)
  show "Cons_cdr ?n = Inl (Error [])" by simp
  show "base ?n = Inl (Error [])" by (simp add: base_def argList_def)
  show "expo ?n = Inl (Error [])" by (simp add: expo_def)
  show "cdr ?n = Inr nil" by (simp add: cdr_def)
  show "Cons_length ?n = Inr 0" by (simp add: Cons_length_unfold)
  show "iterator ?n = Inr []" by (simp add: iterator_empty)
  show "Cons_map f ?n h = Inr (?n, h)" by simp
  show "item ?n i = Inl IndexError" by (simp add: item_unfold)
  show "tail ?n = Inl EmptyListError" by simp
  show "new_Cons (Some x0) (Some (Atom r' v)) ps e h = (ConsU h (Some x0) (Some (Atom r' v)) ps e, Suc h)"
    by (simp add: new_Cons_def)
  show "cons x0 (Atom r' v) ps e h = Inl ShapeError" by (simp add: cons_def)
  show "Cons_cdr ?p = Inl (Error [])" by simp
  show "cdr ?p = Inl (Error [])" by (simp add: cdr_def)
  show "Cons_length ?p = Inl (Error [])" by (simp add: Cons_length_unfold)
  show "item ?p i = Inl (Error [])" if "0 < i" using that by (simp add: item_unfold)
  show "iterator ?p = Inl (Error [])" by (simp add: iterator.simps [of ?p])
  show "Cons_map f ?p h = Inl (Error [])" by simp
  show "base ?p = Inl (Error [])" by (simp add: base_def argList_def)
  show "expo ?p = Inl (Error [])" by (simp add: expo_def)
  show "item ?p 0 = Inr x0" by (simp add: item_unfold)
  show "tail ?p = Inr []" by simp
  show "equals ?p ?p = Inr True" by (rule equals_refl)
  show "equals ?p q = Inl (Error [])"
    if "is_cons (Some q) \<and> q \<noteq> ?p \<and> equals x0 (Cons_car q) = Inr True"
    using that by (simp add: equals_ill_shaped_walk del: equals.simps)
  show "equals ?p q = Inr False"
    if "is_cons (Some q) \<and> q \<noteq> ?p \<and> equals x0 (Cons_car q) = Inr False"
    using that by (simp add: equals_ill_shaped_walk del: equals.simps)
qed

theorem ill_shaped_node_witness:
  "(0::int) < 1 \<and>
   item (ConsU 7 (Some (Atom 1 ''foo'')) (Some (Atom 2 ''bar'')) None None) 1 = Inl (Error []) \<and>
   is_cons (Some (ConsU 8 (Some (Atom 3 ''foo'')) (Some nil) None None)) \<and>
   ConsU 8 (Some (Atom 3 ''foo'')) (Some nil) None None \<noteq>
     ConsU 7 (Some (Atom 1 ''foo'')) (Some (Atom 2 ''bar'')) None None \<and>
   equals (Atom 1 ''foo'') (Cons_car (ConsU 8 (Some (Atom 3 ''foo'')) (Some nil) None None)) = Inr True \<and>
   equals (ConsU 7 (Some (Atom 1 ''foo'')) (Some (Atom 2 ''bar'')) None None)
     (ConsU 8 (Some (Atom 3 ''foo'')) (Some nil) None None) = Inl (Error []) \<and>
   is_cons (Some (ConsU 9 (Some (Atom 4 ''baz'')) (Some nil) None None)) \<and>
   ConsU 9 (Some (Atom 4 ''baz'')) (Some nil) None None \<noteq>
     ConsU 7 (Some (Atom 1 ''foo'')) (Some (Atom 2 ''bar'')) None None \<and>
   equals (Atom 1 ''foo'') (Cons_car (ConsU 9 (Some (Atom 4 ''baz'')) (Some nil) None None)) = Inr False \<and>
   equals (ConsU 7 (Some (Atom 1 ''foo'')) (Some (Atom 2 ''bar'')) None None)
     (ConsU 9 (Some (Atom 4 ''baz'')) (Some nil) None None) = Inr False"
  using ill_shaped_node [where ?x0.0 = "Atom 1 ''foo''" and r' = 2 and v = "''bar''"
      and ps = None and e = None and r = 7 and i = 1
      and q = "ConsU 8 (Some (Atom 3 ''foo'')) (Some nil) None None"]
    ill_shaped_node [where ?x0.0 = "Atom 1 ''foo''" and r' = 2 and v = "''bar''"
      and ps = None and e = None and r = 7 and i = 1
      and q = "ConsU 9 (Some (Atom 4 ''baz'')) (Some nil) None None"]
  by simp

text \<open>
  On the node built by \<^verbatim>\<open>new Cons(foo, bar)\<close> from two atoms the accessor \<^verbatim>\<open>cdr\<close>
  throws, yet \<^verbatim>\<open>tail()\<close> returns the empty array, \<^verbatim>\<open>item(0)\<close> returns \<open>foo\<close>, and the
  comparison with a pair node of another head returns false.
\<close>

theorem ill_shaped_node_counterexample:
  "Cons_cdr (ConsU 7 (Some (Atom 1 ''foo'')) (Some (Atom 2 ''bar'')) None None) = Inl (Error []) \<and>
   tail (ConsU 7 (Some (Atom 1 ''foo'')) (Some (Atom 2 ''bar'')) None None) = Inr [] \<and>
   item (ConsU 7 (Some (Atom 1 ''foo'')) (Some (Atom 2 ''bar'')) None None) 0 = Inr (Atom 1 ''foo'') \<and>
   equals (ConsU 7 (Some (Atom 1 ''foo'')) (Some (Atom 2 ''bar'')) None None)
     (ConsU 9 (Some (Atom 4 ''baz'')) (Some nil) None None) = Inr False"
  by code_simp

end
